theory Spec2Isabelle
  imports Main "HOL-Library.Word" "HOL-Library.AList" "HOL-Library.Code_Target_Nat"
begin

section \<open>Go values, as far as the set sees them\<close>

text \<open>
  A set element is an \<open>interface{}\<close> value: a dynamic type and a value of it.
  \<open>gotype\<close> is what \<open>reflect.Type\<close> tells apart; the sixteen native kinds of
  \<open>hash.go\<close> are constructors of their own and every other type is \<open>TNamed\<close> with the
  name \<open>reflect.Type.String\<close> prints (\<open>bool\<close>, \<open>json.Number\<close>, \<open>main.Person\<close>, ...).
  \<open>int\<close>, \<open>uint\<close> and \<open>uintptr\<close> are taken to be 64 bits wide.
\<close>

datatype gotype =
    TInt | TInt8 | TInt16 | TInt32 | TInt64
  | TUint | TUint8 | TUint16 | TUint32 | TUint64 | TUintptr
  | TFloat32 | TFloat64 | TComplex64 | TComplex128
  | TString
  | TNamed string

text \<open>
  Integers are machine words; floats are their IEEE 754 bit patterns; a complex number
  is the pair of its real and imaginary part. \<open>VHashable t h r\<close> is a value of a
  user-defined type \<open>t\<close> that implements \<open>Hashable\<close>: \<open>h\<close> is what its \<open>Hash()\<close>
  returns and \<open>r\<close> stands for the rest of its contents (two values with the same \<open>h\<close>
  can differ in \<open>r\<close>). \<open>VOther t r\<close> is a value of any other type (a \<open>bool\<close>, a
  \<open>json.Number\<close>, a slice, a struct without \<open>Hash\<close>). \<open>VNil\<close> is the nil interface.
  Values are immutable: a \<open>Hash()\<close> that reads memory changed after the insertion is
  outside this model.
\<close>

datatype val =
    VNil
  | VInt "64 word" | VInt8 "8 word" | VInt16 "16 word" | VInt32 "32 word" | VInt64 "64 word"
  | VUint "64 word" | VUint8 "8 word" | VUint16 "16 word" | VUint32 "32 word"
  | VUint64 "64 word" | VUintptr "64 word"
  | VFloat32 "32 word" | VFloat64 "64 word"
  | VComplex64 "32 word" "32 word" | VComplex128 "64 word" "64 word"
  | VString string
  | VHashable string string string
  | VOther string string

text \<open>\<open>reflect.ValueOf(val).Type()\<close>; on the nil interface it panics (\<open>None\<close>).\<close>

fun type_of :: "val \<Rightarrow> gotype option" where
  "type_of VNil = None"
| "type_of (VInt _) = Some TInt"
| "type_of (VInt8 _) = Some TInt8"
| "type_of (VInt16 _) = Some TInt16"
| "type_of (VInt32 _) = Some TInt32"
| "type_of (VInt64 _) = Some TInt64"
| "type_of (VUint _) = Some TUint"
| "type_of (VUint8 _) = Some TUint8"
| "type_of (VUint16 _) = Some TUint16"
| "type_of (VUint32 _) = Some TUint32"
| "type_of (VUint64 _) = Some TUint64"
| "type_of (VUintptr _) = Some TUintptr"
| "type_of (VFloat32 _) = Some TFloat32"
| "type_of (VFloat64 _) = Some TFloat64"
| "type_of (VComplex64 _ _) = Some TComplex64"
| "type_of (VComplex128 _ _) = Some TComplex128"
| "type_of (VString _) = Some TString"
| "type_of (VHashable t _ _) = Some (TNamed t)"
| "type_of (VOther t _) = Some (TNamed t)"

text \<open>
  The errors of the package: the two that \<open>calcHash\<close> returns, the one \<open>Add\<close> raises
  itself, the two run-time panics the code can reach (\<open>Type()\<close> of a zero
  \<open>reflect.Value\<close>, a failed type assertion), and an error handed back by
  \<open>encoding/json\<close>. \<open>Blocked\<close> is no value of the program: it stands for a call that
  waits for a lock which no running call will release, and so never returns.
\<close>

datatype error =
    ErrNotHashable
  | ErrNotNativeHashable gotype
  | ErrTypeConflict gotype gotype
  | PanicZeroValue
  | PanicTypeAssertion
  | ErrJSON string
  | Blocked

section \<open>strconv: the formatting that calcHash calls\<close>

definition digit_char :: "nat \<Rightarrow> char" where
  "digit_char d = ''0123456789'' ! d"

text \<open>\<open>strconv.FormatUint(n, 10)\<close>.\<close>

fun FormatUint :: "nat \<Rightarrow> string" where
  "FormatUint n =
     (if n < 10 then [digit_char n] else FormatUint (n div 10) @ [digit_char (n mod 10)])"

declare FormatUint.simps [simp del]

text \<open>\<open>strconv.FormatInt(i, 10)\<close> and \<open>strconv.Itoa\<close>.\<close>

definition FormatInt :: "int \<Rightarrow> string" where
  "FormatInt i = (if i < 0 then CHR ''-'' # FormatUint (nat (- i)) else FormatUint (nat i))"

text \<open>
  \<open>strconv.FormatFloat\<close>, for the two formats \<open>calcHash\<close> asks for: \<open>'f'\<close> with a fixed
  number of decimals and \<open>'b'\<close> (mantissa \<open>p\<close> binary exponent). \<open>bits\<close> is the bit
  pattern of the float of width \<open>bitSize\<close> (32 or 64). As in strconv, the pattern is
  split into sign, exponent and mantissa; an all-ones exponent is \<open>NaN\<close> or an infinity;
  otherwise the value is \<open>mant * 2 ^ (exp - mantbits)\<close> exactly, which \<open>'f'\<close> prints
  rounded to \<open>prec\<close> decimals, ties to even.
\<close>

record floatInfo =
  mantbits :: nat
  expbits :: nat
  bias :: int

definition float32info :: floatInfo where
  "float32info = \<lparr>mantbits = 23, expbits = 8, bias = - 127\<rparr>"

definition float64info :: floatInfo where
  "float64info = \<lparr>mantbits = 52, expbits = 11, bias = - 1023\<rparr>"

definition fmtB :: "bool \<Rightarrow> nat \<Rightarrow> int \<Rightarrow> floatInfo \<Rightarrow> string" where
  "fmtB neg mant exp flt =
     (let e = exp - int (mantbits flt) in
      (if neg then ''-'' else '''') @ FormatUint mant @ ''p''
        @ (if e \<ge> 0 then ''+'' else '''') @ FormatInt e)"

text \<open>\<open>mant * 2 ^ e * 10 ^ prec\<close>, rounded to the nearest integer, ties to even.\<close>

definition round_scaled :: "nat \<Rightarrow> int \<Rightarrow> nat \<Rightarrow> nat" where
  "round_scaled mant e prec =
     (if e \<ge> 0 then mant * 2 ^ nat e * 10 ^ prec
      else let d = 2 ^ nat (- e); n = mant * 10 ^ prec; q = n div d; r = n mod d
           in if 2 * r > d \<or> (2 * r = d \<and> odd q) then q + 1 else q)"

definition fmtF :: "bool \<Rightarrow> nat \<Rightarrow> int \<Rightarrow> floatInfo \<Rightarrow> nat \<Rightarrow> string" where
  "fmtF neg mant exp flt prec =
     (let n = round_scaled mant (exp - int (mantbits flt)) prec;
          frac = FormatUint (n mod 10 ^ prec)
      in (if neg then ''-'' else '''') @ FormatUint (n div 10 ^ prec)
         @ (if prec > 0 then CHR ''.'' # replicate (prec - length frac) CHR ''0'' @ frac
            else ''''))"

definition FormatFloat :: "nat \<Rightarrow> char \<Rightarrow> nat \<Rightarrow> nat \<Rightarrow> string" where
  "FormatFloat bits fmt prec bitSize =
     (let flt = (if bitSize = 32 then float32info else float64info);
          neg = (bits div 2 ^ (expbits flt + mantbits flt) \<noteq> 0);
          exp = (bits div 2 ^ mantbits flt) mod 2 ^ expbits flt;
          mant = bits mod 2 ^ mantbits flt
      in if exp = 2 ^ expbits flt - 1
         then (if mant \<noteq> 0 then ''NaN'' else if neg then ''-Inf'' else ''+Inf'')
         else let mant' = (if exp = 0 then mant else mant + 2 ^ mantbits flt);
                  exp' = int (if exp = 0 then 1 else exp) + bias flt
              in if fmt = CHR ''b'' then fmtB neg mant' exp' flt
                 else fmtF neg mant' exp' flt prec)"

text \<open>\<open>strconv.FormatComplex\<close>: both parts at half the bit size, the imaginary one signed.\<close>

definition FormatComplex :: "nat \<Rightarrow> nat \<Rightarrow> char \<Rightarrow> nat \<Rightarrow> nat \<Rightarrow> string" where
  "FormatComplex re im fmt prec bitSize =
     (let im_s = FormatFloat im fmt prec (bitSize div 2);
          im_s' = (if hd im_s \<noteq> CHR ''+'' \<and> hd im_s \<noteq> CHR ''-'' then CHR ''+'' # im_s
                   else im_s)
      in ''('' @ FormatFloat re fmt prec (bitSize div 2) @ im_s' @ ''i)'')"

section \<open>hash.go\<close>

text \<open>
  \<open>isHashableObj\<close>: the type switch accepts \<open>Hashable\<close> and the sixteen native kinds.
\<close>

fun isHashableObj :: "val \<Rightarrow> bool" where
  "isHashableObj (VHashable _ _ _) = True"
| "isHashableObj (VInt _) = True"
| "isHashableObj (VInt8 _) = True"
| "isHashableObj (VInt16 _) = True"
| "isHashableObj (VInt32 _) = True"
| "isHashableObj (VInt64 _) = True"
| "isHashableObj (VUint _) = True"
| "isHashableObj (VUint8 _) = True"
| "isHashableObj (VUint16 _) = True"
| "isHashableObj (VUint32 _) = True"
| "isHashableObj (VUint64 _) = True"
| "isHashableObj (VUintptr _) = True"
| "isHashableObj (VFloat32 _) = True"
| "isHashableObj (VFloat64 _) = True"
| "isHashableObj (VComplex64 _ _) = True"
| "isHashableObj (VComplex128 _ _) = True"
| "isHashableObj (VString _) = True"
| "isHashableObj (VOther _ _) = False"
| "isHashableObj VNil = False"

fun isNativeHashableObj :: "val \<Rightarrow> bool" where
  "isNativeHashableObj obj =
     (if \<not> isHashableObj obj then False
      else (case obj of VHashable _ _ _ \<Rightarrow> False | _ \<Rightarrow> True))"

text \<open>
  \<open>calcHash\<close>, case by case in the order of the source. The second switch has no case
  for \<open>uint8\<close>, so a \<open>uint8\<close> falls to its \<open>default\<close> branch. The type assertion
  \<open>obj.(Hashable)\<close> cannot fail where it stands; the model gives that branch the panic
  it would raise.
\<close>

definition calcHash :: "val \<Rightarrow> error + string" where
  "calcHash obj =
     (if \<not> isHashableObj obj then Inl ErrNotHashable
      else if \<not> isNativeHashableObj obj then
        (case obj of VHashable _ h _ \<Rightarrow> Inr h | _ \<Rightarrow> Inl PanicTypeAssertion)
      else (case obj of
          VString s \<Rightarrow> Inr s
        | VInt w \<Rightarrow> Inr (FormatInt (sint w))
        | VInt8 w \<Rightarrow> Inr (FormatInt (sint w))
        | VInt16 w \<Rightarrow> Inr (FormatInt (sint w))
        | VInt32 w \<Rightarrow> Inr (FormatInt (sint w))
        | VInt64 w \<Rightarrow> Inr (FormatInt (sint w))
        | VUint w \<Rightarrow> Inr (FormatUint (unat w))
        | VUint16 w \<Rightarrow> Inr (FormatUint (unat w))
        | VUint32 w \<Rightarrow> Inr (FormatUint (unat w))
        | VUint64 w \<Rightarrow> Inr (FormatUint (unat w))
        | VUintptr w \<Rightarrow> Inr (FormatUint (unat w))
        | VFloat32 w \<Rightarrow> Inr (FormatFloat (unat w) CHR ''f'' 8 32)
        | VFloat64 w \<Rightarrow> Inr (FormatFloat (unat w) CHR ''f'' 8 64)
        | VComplex64 re im \<Rightarrow> Inr (FormatComplex (unat re) (unat im) CHR ''b'' 8 64)
        | VComplex128 re im \<Rightarrow> Inr (FormatComplex (unat re) (unat im) CHR ''b'' 8 128)
        | _ \<Rightarrow> (case type_of obj of
                   Some t \<Rightarrow> Inl (ErrNotNativeHashable t)
                 | None \<Rightarrow> Inl PanicZeroValue)))"

section \<open>unsafe_set.go: the unsynchronized set\<close>

text \<open>
  \<open>dat map[string]any\<close> is an association list with one entry per key, updated with
  \<open>AList.update\<close> and \<open>AList.delete\<close>; \<open>len(set.dat)\<close> is its length. Go leaves the
  order of a \<open>range\<close> over a map unspecified; the model ranges in the order of the
  list. The theorems below hold for every list, hence for every order. \<open>typ'\<close> is
  the field \<open>typ\<close>, the \<open>reflect.Type\<close> of the elements, \<open>None\<close> for \<open>nil\<close>; the
  receiver \<open>set\<close> is written \<open>s\<close>.
\<close>

record ThreadUnsafeSet =
  dat :: "(string \<times> val) list"
  typ' :: "gotype option"

definition newThreadUnsafeSet :: ThreadUnsafeSet where
  "newThreadUnsafeSet = \<lparr>dat = [], typ' = None\<rparr>"

text \<open>
  \<open>Add\<close> mutates the set and may panic, and the field \<open>typ\<close> is written before
  \<open>calcHash\<close> is called: the model returns the outcome (\<open>Inl\<close> the value of the panic,
  \<open>Inr\<close> the returned boolean) together with the set as the call leaves it.
\<close>

definition Add :: "val \<Rightarrow> ThreadUnsafeSet \<Rightarrow> (error + bool) \<times> ThreadUnsafeSet" where
  "Add v s =
     (case type_of v of
        None \<Rightarrow> (Inl PanicZeroValue, s)
      | Some t \<Rightarrow>
          if typ' s \<noteq> None \<and> typ' s \<noteq> Some t
          then (Inl (ErrTypeConflict (the (typ' s)) t), s)
          else (let s' = (if typ' s = None then s\<lparr>typ' := Some t\<rparr> else s) in
                case calcHash v of
                  Inl err \<Rightarrow> (Inl err, s')
                | Inr hash \<Rightarrow> (Inr True, s'\<lparr>dat := AList.update hash v (dat s')\<rparr>)))"

definition Cardinality :: "ThreadUnsafeSet \<Rightarrow> nat" where
  "Cardinality s = length (dat s)"

definition Size :: "ThreadUnsafeSet \<Rightarrow> nat" where
  "Size s = Cardinality s"


text \<open>
  \<open>Contains\<close> reads the set only, so it is a function to \<open>bool\<close>: the first value
  whose hash fails, or whose hash is no key of \<open>dat\<close>, ends the loop with \<open>false\<close>.
\<close>

fun Contains :: "ThreadUnsafeSet \<Rightarrow> val list \<Rightarrow> bool" where
  "Contains s [] = True"
| "Contains s (v # vs) =
     (case calcHash v of
        Inl err \<Rightarrow> False
      | Inr hash \<Rightarrow>
          (case map_of (dat s) hash of
             None \<Rightarrow> False
           | Some _ \<Rightarrow> Contains s vs))"

text \<open>
  The loop shared by \<open>Clone\<close>, \<open>Difference\<close>, \<open>Intersect\<close>, \<open>SymmetricDifference\<close>,
  \<open>Union\<close> and the constructors: range over entries and \<open>Add\<close> to a local set every
  value that passes the test of the loop body. A panic of \<open>Add\<close> ends the operation.
\<close>

fun range_Add :: "(val \<Rightarrow> bool) \<Rightarrow> val list \<Rightarrow> ThreadUnsafeSet \<Rightarrow> error + ThreadUnsafeSet" where
  "range_Add cond [] acc = Inr acc"
| "range_Add cond (obj # rest) acc =
     (if cond obj then
        (case Add obj acc of
           (Inl err, _) \<Rightarrow> Inl err
         | (Inr _, acc') \<Rightarrow> range_Add cond rest acc')
      else range_Add cond rest acc)"

text \<open>\<open>for _, obj := range set.dat\<close> visits the values of the entries.\<close>

definition elems :: "ThreadUnsafeSet \<Rightarrow> val list" where
  "elems s = map snd (dat s)"

definition Remove :: "val \<Rightarrow> ThreadUnsafeSet \<Rightarrow> (error + unit) \<times> ThreadUnsafeSet" where
  "Remove i s =
     (case calcHash i of
        Inl err \<Rightarrow> (Inl err, s)
      | Inr hash \<Rightarrow> (Inr (), s\<lparr>dat := AList.delete hash (dat s)\<rparr>))"

text \<open>
  \<open>Pop\<close> deletes and returns the first entry the range visits; on the empty set it
  returns \<open>(nil, false)\<close>.
\<close>

definition Pop :: "ThreadUnsafeSet \<Rightarrow> (val \<times> bool) \<times> ThreadUnsafeSet" where
  "Pop s =
     (case dat s of
        [] \<Rightarrow> ((VNil, False), s)
      | (hash, obj) # _ \<Rightarrow> ((obj, True), s\<lparr>dat := AList.delete hash (dat s)\<rparr>))"

definition ToSlice :: "ThreadUnsafeSet \<Rightarrow> val list" where
  "ToSlice s = elems s"

text \<open>
  \<open>Each\<close>, \<open>Iter\<close>, \<open>Iterator\<close>, \<open>String\<close> and the subset tests read the set only
  and take no part in the statements below; they are left out.
\<close>

section \<open>The interface Set and the lock-guarded set\<close>

text \<open>
  \<open>sync.RWMutex\<close>, as the one goroutine that runs the calls sees it: a writer holds it
  or not, and some number of readers hold it. \<open>Lock\<close> waits while anyone holds the mutex,
  \<open>RLock\<close> waits while a writer holds it. The model is sequential, so nothing releases
  a lock while a call waits: a wait lasts forever, and \<open>Lock\<close> and \<open>RLock\<close> return
  \<open>None\<close> for it.
\<close>

record RWMutex =
  writer :: bool
  readers :: nat

definition zeroRWMutex :: RWMutex where
  "zeroRWMutex = \<lparr>writer = False, readers = 0\<rparr>"

definition Lock :: "RWMutex \<Rightarrow> RWMutex option" where
  "Lock m = (if writer m \<or> readers m \<noteq> 0 then None else Some (m\<lparr>writer := True\<rparr>))"

definition Unlock :: "RWMutex \<Rightarrow> RWMutex" where
  "Unlock m = m\<lparr>writer := False\<rparr>"

definition RLock :: "RWMutex \<Rightarrow> RWMutex option" where
  "RLock m = (if writer m then None else Some (m\<lparr>readers := Suc (readers m)\<rparr>))"

definition RUnlock :: "RWMutex \<Rightarrow> RWMutex" where
  "RUnlock m = m\<lparr>readers := readers m - 1\<rparr>"

text \<open>
  \<open>ThreadSafeSet\<close> embeds a \<open>sync.RWMutex\<close> (the field \<open>rwmutex\<close>) and holds a
  \<open>ThreadUnsafeSet\<close>. A value of the interface \<open>Set\<close> is a pointer to one of the two
  implementations; the type assertions \<open>other.(*ThreadUnsafeSet)\<close> and
  \<open>other.(*ThreadSafeSet)\<close> panic on the other one. The two operands of a binary
  operation are taken to be two objects.
\<close>

record ThreadSafeSet =
  rwmutex :: RWMutex
  unsafeSet :: ThreadUnsafeSet

datatype Set = PUnsafe ThreadUnsafeSet | PSafe ThreadSafeSet

definition newThreadSafeSet :: ThreadSafeSet where
  "newThreadSafeSet = \<lparr>rwmutex = zeroRWMutex, unsafeSet = newThreadUnsafeSet\<rparr>"

text \<open>
  \<open>Cardinality\<close> and \<open>Size\<close> take the read lock and release it by \<open>defer\<close>: when they
  return, the mutex is as it was.
\<close>

definition Safe_Cardinality :: "ThreadSafeSet \<Rightarrow> error + nat" where
  "Safe_Cardinality s =
     (case RLock (rwmutex s) of
        None \<Rightarrow> Inl Blocked
      | Some _ \<Rightarrow> Inr (length (dat (unsafeSet s))))"

definition Safe_Size :: "ThreadSafeSet \<Rightarrow> error + nat" where
  "Safe_Size s =
     (case RLock (rwmutex s) of
        None \<Rightarrow> Inl Blocked
      | Some _ \<Rightarrow> Inr (Size (unsafeSet s)))"

text \<open>\<open>other.Size()\<close>, dispatched on the implementation behind the interface.\<close>

fun Set_Size :: "Set \<Rightarrow> error + nat" where
  "Set_Size (PUnsafe u) = Inr (Size u)"
| "Set_Size (PSafe t) = Safe_Size t"

subsection \<open>The operations of ThreadUnsafeSet that take or return a Set\<close>

definition Clone :: "ThreadUnsafeSet \<Rightarrow> error + Set" where
  "Clone s =
     (case range_Add (\<lambda>elem. True) (elems s) \<lparr>dat = [], typ' = typ' s\<rparr> of
        Inl err \<Rightarrow> Inl err
      | Inr cloned \<Rightarrow> Inr (PUnsafe cloned))"

definition Difference :: "ThreadUnsafeSet \<Rightarrow> Set \<Rightarrow> error + Set" where
  "Difference s other =
     (case other of
        PSafe _ \<Rightarrow> Inl PanicTypeAssertion
      | PUnsafe o' \<Rightarrow>
          (case range_Add (\<lambda>obj. \<not> Contains o' [obj]) (elems s) newThreadUnsafeSet of
             Inl err \<Rightarrow> Inl err
           | Inr diff \<Rightarrow> Inr (PUnsafe diff)))"

text \<open>
  \<open>Equal\<close> compares the sizes before it asserts the type of \<open>other\<close>, and returns
  \<open>true\<close> when they differ.
\<close>

definition Equal :: "ThreadUnsafeSet \<Rightarrow> Set \<Rightarrow> error + bool" where
  "Equal s other =
     (case Set_Size other of
        Inl err \<Rightarrow> Inl err
      | Inr n \<Rightarrow>
          if Size s \<noteq> n then Inr True
          else (case other of
                  PSafe _ \<Rightarrow> Inl PanicTypeAssertion
                | PUnsafe o' \<Rightarrow> Inr (list_all (\<lambda>obj. Contains o' [obj]) (elems s))))"


definition SymmetricDifference :: "ThreadUnsafeSet \<Rightarrow> Set \<Rightarrow> error + Set" where
  "SymmetricDifference s other =
     (case other of
        PSafe _ \<Rightarrow> Inl PanicTypeAssertion
      | PUnsafe o' \<Rightarrow>
          (case range_Add (\<lambda>obj. \<not> Contains o' [obj]) (elems s) newThreadUnsafeSet of
             Inl err \<Rightarrow> Inl err
           | Inr diff \<Rightarrow>
               (case range_Add (\<lambda>obj. \<not> Contains s [obj]) (elems o') diff of
                  Inl err \<Rightarrow> Inl err
                | Inr diff' \<Rightarrow> Inr (PUnsafe diff'))))"

definition Union :: "ThreadUnsafeSet \<Rightarrow> Set \<Rightarrow> error + Set" where
  "Union s other =
     (case other of
        PSafe _ \<Rightarrow> Inl PanicTypeAssertion
      | PUnsafe o' \<Rightarrow>
          (case range_Add (\<lambda>obj. True) (elems s) newThreadUnsafeSet of
             Inl err \<Rightarrow> Inl err
           | Inr un \<Rightarrow>
               (case range_Add (\<lambda>obj. True) (elems o') un of
                  Inl err \<Rightarrow> Inl err
                | Inr un' \<Rightarrow> Inr (PUnsafe un'))))"

subsection \<open>JSON\<close>

text \<open>
  \<open>encoding/json\<close> is not part of the package. \<open>MarshalJSON\<close> takes \<open>json.Marshal\<close> as
  the parameter \<open>Marshal\<close>, and \<open>UnmarshalJSON\<close> takes as \<open>Decode\<close> what the decoder
  with \<open>UseNumber\<close> stores into \<open>[]interface{}\<close> from the bytes \<open>b\<close>.
\<close>

fun Marshal_items :: "(val \<Rightarrow> error + string) \<Rightarrow> val list \<Rightarrow> error + string list" where
  "Marshal_items Marshal [] = Inr []"
| "Marshal_items Marshal (obj # rest) =
     (case Marshal obj of
        Inl err \<Rightarrow> Inl err
      | Inr b \<Rightarrow>
          (case Marshal_items Marshal rest of
             Inl err \<Rightarrow> Inl err
           | Inr items \<Rightarrow> Inr (b # items)))"

text \<open>\<open>strings.Join\<close>.\<close>

fun Join :: "string list \<Rightarrow> string \<Rightarrow> string" where
  "Join [] sep = []"
| "Join [x] sep = x"
| "Join (x # y # rest) sep = x @ sep @ Join (y # rest) sep"

definition MarshalJSON :: "(val \<Rightarrow> error + string) \<Rightarrow> ThreadUnsafeSet \<Rightarrow> error + string" where
  "MarshalJSON Marshal s =
     (case Marshal_items Marshal (elems s) of
        Inl err \<Rightarrow> Inl err
      | Inr items \<Rightarrow> Inr (''['' @ Join items '','' @ '']''))"

text \<open>
  \<open>for _, v := range i { set.Add(v) }\<close> on the receiver: a panic of \<open>Add\<close> leaves the
  set with what was added before it.
\<close>

fun Add_each :: "val list \<Rightarrow> ThreadUnsafeSet \<Rightarrow> (error + unit) \<times> ThreadUnsafeSet" where
  "Add_each [] s = (Inr (), s)"
| "Add_each (v # vs) s =
     (case Add v s of
        (Inl err, s') \<Rightarrow> (Inl err, s')
      | (Inr _, s') \<Rightarrow> Add_each vs s')"

text \<open>
  The outcome of \<open>UnmarshalJSON\<close> is \<open>Inl\<close> a panic or \<open>Inr\<close> the returned error
  (\<open>None\<close> for \<open>nil\<close>).
\<close>

definition UnmarshalJSON ::
  "(string \<Rightarrow> error + val list) \<Rightarrow> string \<Rightarrow> ThreadUnsafeSet
    \<Rightarrow> (error + error option) \<times> ThreadUnsafeSet" where
  "UnmarshalJSON Decode b s =
     (case Decode b of
        Inl err \<Rightarrow> (Inr (Some err), s)
      | Inr i \<Rightarrow>
          (case Add_each i s of
             (Inl err, s') \<Rightarrow> (Inl err, s')
           | (Inr _, s') \<Rightarrow> (Inr None, s')))"

subsection \<open>set.go: the constructors\<close>

definition NewThreadUnsafeSet :: "val list \<Rightarrow> error + Set" where
  "NewThreadUnsafeSet vals =
     (case range_Add (\<lambda>item. True) vals newThreadUnsafeSet of
        Inl err \<Rightarrow> Inl err
      | Inr s \<Rightarrow> Inr (PUnsafe s))"

subsection \<open>The operations of ThreadSafeSet\<close>

text \<open>
  Every operation takes the lock, calls the operation of the inner set and releases
  the lock. Where the release is not deferred and the inner call panics, the lock
  stays held: the model returns the set as the call leaves it. A call that waits for
  the lock has the outcome \<open>Blocked\<close>.
\<close>

definition Safe_Add :: "val \<Rightarrow> ThreadSafeSet \<Rightarrow> (error + bool) \<times> ThreadSafeSet" where
  "Safe_Add v s =
     (case Lock (rwmutex s) of
        None \<Rightarrow> (Inl Blocked, s)
      | Some m \<Rightarrow>
          (case Add v (unsafeSet s) of
             (Inl err, u) \<Rightarrow> (Inl err, s\<lparr>rwmutex := m, unsafeSet := u\<rparr>)
           | (Inr ret, u) \<Rightarrow> (Inr ret, s\<lparr>rwmutex := Unlock m, unsafeSet := u\<rparr>)))"

definition Safe_Clear :: "ThreadSafeSet \<Rightarrow> (error + unit) \<times> ThreadSafeSet" where
  "Safe_Clear s =
     (case Lock (rwmutex s) of
        None \<Rightarrow> (Inl Blocked, s)
      | Some m \<Rightarrow> (Inr (), s\<lparr>rwmutex := Unlock m, unsafeSet := newThreadUnsafeSet\<rparr>))"

text \<open>
  The wrappers assert that the result of the inner call is a \<open>*ThreadUnsafeSet\<close> and
  put a copy of it into a new \<open>ThreadSafeSet\<close>, whose mutex is the zero value.
\<close>

fun wrap :: "error + Set \<Rightarrow> error + Set" where
  "wrap (Inl err) = Inl err"
| "wrap (Inr (PUnsafe u)) = Inr (PSafe \<lparr>rwmutex = zeroRWMutex, unsafeSet = u\<rparr>)"
| "wrap (Inr (PSafe _)) = Inl PanicTypeAssertion"

definition Safe_Clone :: "ThreadSafeSet \<Rightarrow> (error + Set) \<times> ThreadSafeSet" where
  "Safe_Clone s =
     (case RLock (rwmutex s) of
        None \<Rightarrow> (Inl Blocked, s)
      | Some m \<Rightarrow>
          (case wrap (Clone (unsafeSet s)) of
             Inl err \<Rightarrow> (Inl err, s\<lparr>rwmutex := m\<rparr>)
           | Inr ret \<Rightarrow> (Inr ret, s\<lparr>rwmutex := RUnlock m\<rparr>)))"

text \<open>\<open>Contains\<close> cannot panic: when it returns, the mutex is as it was.\<close>

definition Safe_Contains :: "ThreadSafeSet \<Rightarrow> val list \<Rightarrow> error + bool" where
  "Safe_Contains s vs =
     (case RLock (rwmutex s) of
        None \<Rightarrow> Inl Blocked
      | Some _ \<Rightarrow> Inr (Contains (unsafeSet s) vs))"

text \<open>
  The binary operations: \<open>set.RLock(); o.RLock(); ret := ...; set.RUnlock();
  o.RUnlock()\<close>, given the outcome \<open>body\<close> of the inner call. The result is the outcome
  with the two sets as the call leaves them.
\<close>

definition under_RLocks ::
  "ThreadSafeSet \<Rightarrow> ThreadSafeSet \<Rightarrow> error + 'a \<Rightarrow> (error + 'a) \<times> ThreadSafeSet \<times> ThreadSafeSet" where
  "under_RLocks s o' body =
     (case RLock (rwmutex s) of
        None \<Rightarrow> (Inl Blocked, s, o')
      | Some ms \<Rightarrow>
          (case RLock (rwmutex o') of
             None \<Rightarrow> (Inl Blocked, s\<lparr>rwmutex := ms\<rparr>, o')
           | Some mo \<Rightarrow>
               (case body of
                  Inl err \<Rightarrow> (Inl err, s\<lparr>rwmutex := ms\<rparr>, o'\<lparr>rwmutex := mo\<rparr>)
                | Inr ret \<Rightarrow>
                    (Inr ret, s\<lparr>rwmutex := RUnlock ms\<rparr>, o'\<lparr>rwmutex := RUnlock mo\<rparr>))))"

definition Safe_Difference :: "ThreadSafeSet \<Rightarrow> Set \<Rightarrow> (error + Set) \<times> ThreadSafeSet \<times> Set" where
  "Safe_Difference s other =
     (case other of
        PUnsafe _ \<Rightarrow> (Inl PanicTypeAssertion, s, other)
      | PSafe o' \<Rightarrow>
          (case under_RLocks s o' (wrap (Difference (unsafeSet s) (PUnsafe (unsafeSet o')))) of
             (ret, s', o'') \<Rightarrow> (ret, s', PSafe o'')))"

definition Safe_Equal :: "ThreadSafeSet \<Rightarrow> Set \<Rightarrow> (error + bool) \<times> ThreadSafeSet \<times> Set" where
  "Safe_Equal s other =
     (case other of
        PUnsafe _ \<Rightarrow> (Inl PanicTypeAssertion, s, other)
      | PSafe o' \<Rightarrow>
          (case under_RLocks s o' (Equal (unsafeSet s) (PUnsafe (unsafeSet o'))) of
             (ret, s', o'') \<Rightarrow> (ret, s', PSafe o'')))"


text \<open>\<open>Remove\<close> computes the hash, and panics on its error, before it takes the lock.\<close>

definition Safe_Remove :: "val \<Rightarrow> ThreadSafeSet \<Rightarrow> (error + unit) \<times> ThreadSafeSet" where
  "Safe_Remove i s =
     (case calcHash i of
        Inl err \<Rightarrow> (Inl err, s)
      | Inr hash \<Rightarrow>
          (case Lock (rwmutex s) of
             None \<Rightarrow> (Inl Blocked, s)
           | Some m \<Rightarrow>
               (Inr (), s\<lparr>rwmutex := Unlock m,
                          unsafeSet := (unsafeSet s)\<lparr>dat := AList.delete hash (dat (unsafeSet s))\<rparr>\<rparr>)))"

text \<open>\<open>ThreadSafeSet.SymmetricDifference\<close> calls \<open>Difference\<close> on the inner sets.\<close>

definition Safe_SymmetricDifference ::
  "ThreadSafeSet \<Rightarrow> Set \<Rightarrow> (error + Set) \<times> ThreadSafeSet \<times> Set" where
  "Safe_SymmetricDifference s other =
     (case other of
        PUnsafe _ \<Rightarrow> (Inl PanicTypeAssertion, s, other)
      | PSafe o' \<Rightarrow>
          (case under_RLocks s o' (wrap (Difference (unsafeSet s) (PUnsafe (unsafeSet o')))) of
             (ret, s', o'') \<Rightarrow> (ret, s', PSafe o'')))"


text \<open>\<open>Pop\<close> releases the lock by \<open>defer\<close>.\<close>

definition Safe_Pop :: "ThreadSafeSet \<Rightarrow> (error + val \<times> bool) \<times> ThreadSafeSet" where
  "Safe_Pop s =
     (case Lock (rwmutex s) of
        None \<Rightarrow> (Inl Blocked, s)
      | Some m \<Rightarrow>
          (case Pop (unsafeSet s) of
             (ret, u) \<Rightarrow> (Inr ret, s\<lparr>rwmutex := Unlock m, unsafeSet := u\<rparr>)))"

definition Safe_MarshalJSON :: "(val \<Rightarrow> error + string) \<Rightarrow> ThreadSafeSet \<Rightarrow> error + string" where
  "Safe_MarshalJSON Marshal s =
     (case RLock (rwmutex s) of
        None \<Rightarrow> Inl Blocked
      | Some _ \<Rightarrow> MarshalJSON Marshal (unsafeSet s))"

text \<open>\<open>UnmarshalJSON\<close> takes the read lock, and keeps it when the inner call panics.\<close>

definition Safe_UnmarshalJSON ::
  "(string \<Rightarrow> error + val list) \<Rightarrow> string \<Rightarrow> ThreadSafeSet
    \<Rightarrow> (error + error option) \<times> ThreadSafeSet" where
  "Safe_UnmarshalJSON Decode b s =
     (case RLock (rwmutex s) of
        None \<Rightarrow> (Inl Blocked, s)
      | Some m \<Rightarrow>
          (case UnmarshalJSON Decode b (unsafeSet s) of
             (Inl err, u) \<Rightarrow> (Inl err, s\<lparr>rwmutex := m, unsafeSet := u\<rparr>)
           | (Inr err, u) \<Rightarrow> (Inr err, s\<lparr>rwmutex := RUnlock m, unsafeSet := u\<rparr>)))"

text \<open>\<open>NewSet\<close>: the loop calls \<open>ThreadSafeSet.Add\<close> on a local set.\<close>

fun NewSet_loop :: "val list \<Rightarrow> ThreadSafeSet \<Rightarrow> error + ThreadSafeSet" where
  "NewSet_loop [] s = Inr s"
| "NewSet_loop (item # rest) s =
     (case Safe_Add item s of
        (Inl err, _) \<Rightarrow> Inl err
      | (Inr _, s') \<Rightarrow> NewSet_loop rest s')"

definition NewSet :: "val list \<Rightarrow> error + Set" where
  "NewSet vals =
     (case NewSet_loop vals newThreadSafeSet of
        Inl err \<Rightarrow> Inl err
      | Inr s \<Rightarrow> Inr (PSafe s))"

section \<open>Notions used by the statements\<close>

text \<open>The keys of the backing mapping.\<close>

definition keys :: "ThreadUnsafeSet \<Rightarrow> string set" where
  "keys s = fst ` set (dat s)"

text \<open>
  The invariant of a set: the list has one entry per key (it is a map), every entry is
  stored under the hash of its value, and every value has the type recorded in \<open>typ'\<close>.
\<close>

definition set_inv :: "ThreadUnsafeSet \<Rightarrow> bool" where
  "set_inv s \<longleftrightarrow>
     distinct (map fst (dat s)) \<and>
     (\<forall>(k, v) \<in> set (dat s). calcHash v = Inr k \<and> type_of v = typ' s)"



text \<open>
  The guarded set with mutex \<open>m\<close> around the inner set \<open>u\<close>, and the mutex that a writer
  holds.
\<close>

definition guarded :: "RWMutex \<Rightarrow> ThreadUnsafeSet \<Rightarrow> ThreadSafeSet" where
  "guarded m u = \<lparr>rwmutex = m, unsafeSet = u\<rparr>"

definition heldRWMutex :: RWMutex where
  "heldRWMutex = \<lparr>writer = True, readers = 0\<rparr>"

text \<open>Five sets of \<open>int\<close> values, as the constructors build them.\<close>

definition ex_1 :: ThreadUnsafeSet where
  "ex_1 = \<lparr>dat = [(''1'', VInt 1)], typ' = Some TInt\<rparr>"

definition ex_12 :: ThreadUnsafeSet where
  "ex_12 = \<lparr>dat = [(''1'', VInt 1), (''2'', VInt 2)], typ' = Some TInt\<rparr>"

definition ex_13 :: ThreadUnsafeSet where
  "ex_13 = \<lparr>dat = [(''1'', VInt 1), (''3'', VInt 3)], typ' = Some TInt\<rparr>"

definition ex_123 :: ThreadUnsafeSet where
  "ex_123 = \<lparr>dat = [(''1'', VInt 1), (''2'', VInt 2), (''3'', VInt 3)], typ' = Some TInt\<rparr>"

definition ex_234 :: ThreadUnsafeSet where
  "ex_234 = \<lparr>dat = [(''2'', VInt 2), (''3'', VInt 3), (''4'', VInt 4)], typ' = Some TInt\<rparr>"

text \<open>Reading a decimal text back, to state that \<open>FormatUint\<close> loses nothing.\<close>

definition digit_val :: "char \<Rightarrow> nat" where
  "digit_val c = of_char c - 48"

definition ParseUint :: "string \<Rightarrow> nat" where
  "ParseUint s = foldl (\<lambda>a c. 10 * a + digit_val c) 0 s"

section \<open>Lemmas\<close>

subsection \<open>The decimal text of an integer determines it\<close>

lemma digit_val_digit_char: "d < 10 \<Longrightarrow> digit_val (digit_char d) = d"
proof -
  assume "d < 10"
  then have "d \<in> {0, 1, 2, 3, 4, 5, 6, 7, 8, 9}" by auto
  then show ?thesis by (auto simp: digit_val_def digit_char_def)
qed

lemma ParseUint_snoc: "ParseUint (s @ [c]) = 10 * ParseUint s + digit_val c"
  by (simp add: ParseUint_def)

lemma ParseUint_FormatUint: "ParseUint (FormatUint n) = n"
proof (induction n rule: FormatUint.induct)
  case (1 n)
  show ?case
  proof (cases "n < 10")
    case True
    then show ?thesis
      by (subst FormatUint.simps) (simp add: ParseUint_def digit_val_digit_char)
  next
    case False
    with 1 have "ParseUint (FormatUint (n div 10)) = n div 10" by simp
    with False show ?thesis
      by (subst FormatUint.simps) (simp add: ParseUint_snoc digit_val_digit_char)
  qed
qed

lemma FormatUint_inj: "FormatUint m = FormatUint n \<Longrightarrow> m = n"
  by (metis ParseUint_FormatUint)

lemma FormatUint_digits: "c \<in> set (FormatUint n) \<Longrightarrow> c \<in> set ''0123456789''"
proof (induction n rule: FormatUint.induct)
  case (1 n)
  have d: "\<And>d. d < 10 \<Longrightarrow> digit_char d \<in> set ''0123456789''"
    unfolding digit_char_def by (rule nth_mem) simp
  show ?case
  proof (cases "n < 10")
    case True
    with 1(2) d[of n] show ?thesis by (subst (asm) FormatUint.simps) simp
  next
    case False
    with 1 d[of "n mod 10"] show ?thesis
      by (subst (asm) (2) FormatUint.simps) auto
  qed
qed

lemma FormatUint_not_minus: "FormatUint n \<noteq> CHR ''-'' # s"
proof
  assume eq: "FormatUint n = CHR ''-'' # s"
  then have "CHR ''-'' \<in> set (FormatUint n)" by simp
  then have "CHR ''-'' \<in> set ''0123456789''" by (rule FormatUint_digits)
  then show False by simp
qed

lemma FormatInt_inj: "FormatInt i = FormatInt j \<Longrightarrow> i = j"
proof -
  assume eq: "FormatInt i = FormatInt j"
  show "i = j"
  proof (cases "i < 0")
    case True
    note i = this
    show ?thesis
    proof (cases "j < 0")
      case True
      with i eq have "FormatUint (nat (- i)) = FormatUint (nat (- j))" by (simp add: FormatInt_def)
      then have "nat (- i) = nat (- j)" by (rule FormatUint_inj)
      with i True show ?thesis by simp
    next
      case False
      with i eq have "FormatUint (nat j) = CHR ''-'' # FormatUint (nat (- i))"
        by (simp add: FormatInt_def)
      with FormatUint_not_minus show ?thesis by blast
    qed
  next
    case False
    note i = this
    show ?thesis
    proof (cases "j < 0")
      case True
      with i eq have "FormatUint (nat i) = CHR ''-'' # FormatUint (nat (- j))"
        by (simp add: FormatInt_def)
      with FormatUint_not_minus show ?thesis by blast
    next
      case False
      with i eq have "FormatUint (nat i) = FormatUint (nat j)" by (simp add: FormatInt_def)
      then have "nat i = nat j" by (rule FormatUint_inj)
      with i False show ?thesis by simp
    qed
  qed
qed

subsection \<open>calcHash\<close>

lemma calcHash_type_of: "calcHash v = Inr h \<Longrightarrow> type_of v \<noteq> None"
  by (cases v) (auto simp: calcHash_def)

lemma calcHash_native:
  assumes "isNativeHashableObj v" and "\<And>w. v \<noteq> VUint8 w"
  shows "\<exists>h. calcHash v = Inr h"
  using assms by (cases v) (auto simp: calcHash_def)

lemma calcHash_integers:
  "calcHash (VInt i) = Inr (FormatInt (sint i))"
  "calcHash (VInt8 i8) = Inr (FormatInt (sint i8))"
  "calcHash (VInt16 i16) = Inr (FormatInt (sint i16))"
  "calcHash (VInt32 i32) = Inr (FormatInt (sint i32))"
  "calcHash (VInt64 i64) = Inr (FormatInt (sint i64))"
  "calcHash (VUint u) = Inr (FormatUint (unat u))"
  "calcHash (VUint16 u16) = Inr (FormatUint (unat u16))"
  "calcHash (VUint32 u32) = Inr (FormatUint (unat u32))"
  "calcHash (VUint64 u64) = Inr (FormatUint (unat u64))"
  "calcHash (VUintptr p) = Inr (FormatUint (unat p))"
  by (simp_all add: calcHash_def)

lemma calcHash_uint8: "isHashableObj (VUint8 w) \<and> calcHash (VUint8 w) = Inl (ErrNotNativeHashable TUint8)"
  by (simp add: calcHash_def)

lemma calcHash_int_inj:
  "calcHash (VInt a) = calcHash (VInt b) \<Longrightarrow> a = b"
  "calcHash (VUint c) = calcHash (VUint d) \<Longrightarrow> c = d"
  by (auto simp: calcHash_def dest!: FormatInt_inj FormatUint_inj
      intro: signed_word_eqI unsigned_word_eqI)

lemma calcHash_small:
  "calcHash (VInt 1) = Inr ''1''" "calcHash (VInt 2) = Inr ''2''"
  "calcHash (VInt 3) = Inr ''3''" "calcHash (VInt 4) = Inr ''4''"
  by (simp_all add: calcHash_def FormatInt_def FormatUint.simps digit_char_def)

subsection \<open>The association list\<close>

lemma length_update:
  "length (AList.update k v al) = (if k \<in> fst ` set al then length al else Suc (length al))"
  by (induction al) auto

lemma set_update_cases:
  "e \<in> set (AList.update k v al) \<Longrightarrow> e = (k, v) \<or> e \<in> set al"
  by (induction al) (auto split: if_splits)

lemma length_delete_distinct:
  "distinct (map fst al) \<Longrightarrow> k \<in> fst ` set al \<Longrightarrow> Suc (length (AList.delete k al)) = length al"
  by (induction al) (auto simp: rev_image_eqI)


lemma dom_delete: "fst ` set (AList.delete k al) = fst ` set al - {k}"
  by (induction al) auto

subsection \<open>Contains and Add\<close>

lemma in_keys_iff: "h \<in> keys s \<longleftrightarrow> map_of (dat s) h \<noteq> None"
  by (simp add: keys_def map_of_eq_None_iff)

lemma Contains_iff:
  "Contains s vs \<longleftrightarrow> (\<forall>v \<in> set vs. \<exists>h. calcHash v = Inr h \<and> h \<in> keys s)"
  by (induction vs) (auto simp: in_keys_iff split: sum.splits option.splits)

lemma Contains_single:
  "Contains s [x] \<longleftrightarrow> (\<exists>h. calcHash x = Inr h \<and> h \<in> keys s)"
  by (simp add: Contains_iff)

declare Contains.simps [simp del]

lemma Contains_hash: "calcHash v = Inr h \<Longrightarrow> Contains s [v] \<longleftrightarrow> h \<in> keys s"
  by (simp add: Contains_single)

lemma Contains_unhashable: "calcHash x = Inl e \<Longrightarrow> \<not> Contains s [x]"
  by (simp add: Contains_single)

lemma Contains_by_keys:
  assumes "\<And>h. h \<in> keys C \<longleftrightarrow> P (h \<in> keys A) (h \<in> keys B)" and "\<not> P False False"
  shows "Contains C [x] \<longleftrightarrow> P (Contains A [x]) (Contains B [x])"
proof (cases "calcHash x")
  case (Inl e)
  then show ?thesis using assms(2) by (simp add: Contains_unhashable)
next
  case (Inr h)
  then show ?thesis using assms(1) by (simp add: Contains_hash)
qed



lemma Contains_SymmetricDifference:
  "keys D = (keys A - keys B) \<union> (keys B - keys A)
    \<Longrightarrow> Contains D [x] \<longleftrightarrow> Contains A [x] \<noteq> Contains B [x]"
  by (rule Contains_by_keys[where P = "\<lambda>a b. a \<noteq> b"]) auto

lemma Contains_Union: "keys D = keys A \<union> keys B \<Longrightarrow> Contains D [x] \<longleftrightarrow> Contains A [x] \<or> Contains B [x]"
  by (rule Contains_by_keys[where P = "\<lambda>a b. a \<or> b"]) simp_all

lemma Add_ok:
  assumes "calcHash v = Inr h" and "typ' s = None \<or> typ' s = type_of v"
  shows "Add v s = (Inr True, \<lparr>dat = AList.update h v (dat s), typ' = type_of v\<rparr>)"
  using assms calcHash_type_of[OF assms(1)]
  by (cases s) (auto simp: Add_def split: option.splits)

lemma set_inv_untyped: 
  assumes "set_inv s" and "typ' s = None" shows "dat s = []"
proof (cases "dat s")
  case Nil then show ?thesis .
next
  case (Cons e es)
  obtain k v where e: "e = (k, v)" by (cases e)
  from assms Cons e have "calcHash v = Inr k" "type_of v = None"
    by (auto simp: set_inv_def)
  with calcHash_type_of show ?thesis by blast
qed

lemma Add_cases:
  "Add v s = (Inl PanicZeroValue, s) \<and> type_of v = None
   \<or> (\<exists>st t. Add v s = (Inl (ErrTypeConflict st t), s))
   \<or> (\<exists>err. Add v s = (Inl err, s\<lparr>typ' := type_of v\<rparr>) \<and> (typ' s = None \<or> typ' s = type_of v))
   \<or> (\<exists>h. Add v s = (Inr True, \<lparr>dat = AList.update h v (dat s), typ' = type_of v\<rparr>)
         \<and> calcHash v = Inr h \<and> (typ' s = None \<or> typ' s = type_of v))"
  by (cases s) (auto simp: Add_def Let_def split: option.splits sum.splits)

lemma set_inv_update:
  assumes "set_inv s" and "calcHash v = Inr h" and "typ' s = None \<or> typ' s = type_of v"
  shows "set_inv \<lparr>dat = AList.update h v (dat s), typ' = type_of v\<rparr>"
proof (cases "typ' s")
  case None
  with assms(1) have "dat s = []" by (rule set_inv_untyped)
  with assms(2) show ?thesis by (simp add: set_inv_def)
next
  case (Some t)
  with assms(3) have t: "typ' s = type_of v" by simp
  show ?thesis
    using assms(1,2) t
    by (auto simp: set_inv_def distinct_update dest!: set_update_cases)
qed

lemma Add_inv: "set_inv s \<Longrightarrow> set_inv (snd (Add v s))"
  using Add_cases[of v s] set_inv_untyped[of s]
  by (auto simp: set_inv_update) (auto simp: set_inv_def)


lemma Cardinality_keys: "set_inv s \<Longrightarrow> Cardinality s = card (keys s)"
  unfolding Cardinality_def keys_def set_inv_def
  using distinct_card[of "map fst (dat s)"] by simp

lemma set_inv_new [simp]: "set_inv newThreadUnsafeSet"
  by (simp add: set_inv_def newThreadUnsafeSet_def)

lemma keys_new [simp]: "keys newThreadUnsafeSet = {}"
  by (simp add: keys_def newThreadUnsafeSet_def)

lemma typ_new [simp]: "typ' newThreadUnsafeSet = None"
  by (simp add: newThreadUnsafeSet_def)

subsection \<open>The loops that add to a local set\<close>

lemma range_Add_inv:
  "set_inv acc \<Longrightarrow> range_Add c vs acc = Inr acc' \<Longrightarrow> set_inv acc'"
proof (induction vs arbitrary: acc)
  case Nil
  then show ?case by simp
next
  case (Cons v vs)
  show ?case
  proof (cases "c v")
    case False
    with Cons show ?thesis by simp
  next
    case True
    obtain r a where A: "Add v acc = (r, a)" by (cases "Add v acc")
    with Cons.prems(2) True obtain b where "r = Inr b" and R: "range_Add c vs a = Inr acc'"
      by (cases r) auto
    from Add_inv[OF Cons.prems(1), of v] A have "set_inv a" by simp
    then show ?thesis using R by (rule Cons.IH)
  qed
qed

lemma range_Add_ok:
  assumes "\<forall>v \<in> set vs. c v \<longrightarrow> (\<exists>h. calcHash v = Inr h) \<and> type_of v = t"
    and "typ' acc = None \<or> typ' acc = t"
  shows "\<exists>acc'. range_Add c vs acc = Inr acc'
           \<and> keys acc' = keys acc \<union> {h. \<exists>v \<in> set vs. c v \<and> calcHash v = Inr h}
           \<and> (typ' acc' = None \<or> typ' acc' = t)"
  using assms
proof (induction vs arbitrary: acc)
  case Nil
  then show ?case by simp
next
  case (Cons v vs)
  show ?case
  proof (cases "c v")
    case False
    with Cons.prems have "\<forall>v \<in> set vs. c v \<longrightarrow> (\<exists>h. calcHash v = Inr h) \<and> type_of v = t"
      by simp
    from Cons.IH[OF this Cons.prems(2)] False show ?thesis by auto
  next
    case True
    with Cons.prems(1) obtain h where h: "calcHash v = Inr h" and t: "type_of v = t"
      by auto
    let ?a = "\<lparr>dat = AList.update h v (dat acc), typ' = type_of v\<rparr>"
    from Cons.prems(2) t have "typ' acc = None \<or> typ' acc = type_of v" by simp
    from Add_ok[OF h this] have A: "Add v acc = (Inr True, ?a)" .
    have ka: "keys ?a = insert h (keys acc)"
      by (simp add: keys_def dom_update)
    from Cons.prems(1) have rest: "\<forall>v \<in> set vs. c v \<longrightarrow> (\<exists>h. calcHash v = Inr h) \<and> type_of v = t"
      by simp
    have "typ' ?a = None \<or> typ' ?a = t" using t by simp
    from Cons.IH[OF rest this] obtain acc' where
      R: "range_Add c vs ?a = Inr acc'"
      and K: "keys acc' = keys ?a \<union> {h. \<exists>v \<in> set vs. c v \<and> calcHash v = Inr h}"
      and T: "typ' acc' = None \<or> typ' acc' = t"
      by blast
    from True A R have "range_Add c (v # vs) acc = Inr acc'" by simp
    moreover from K ka True h
    have "keys acc' = keys acc \<union> {h. \<exists>v \<in> set (v # vs). c v \<and> calcHash v = Inr h}"
      by auto
    ultimately show ?thesis using T by blast
  qed
qed

lemma elems_inv:
  assumes "set_inv s" and "v \<in> set (elems s)"
  shows "\<exists>h. calcHash v = Inr h \<and> h \<in> keys s" and "type_of v = typ' s"
  using assms by (auto simp: set_inv_def elems_def keys_def rev_image_eqI)

lemma keys_elems:
  assumes "set_inv s" and "h \<in> keys s"
  shows "\<exists>v \<in> set (elems s). calcHash v = Inr h"
  using assms by (fastforce simp: set_inv_def elems_def keys_def)

lemma hashes_of_elems:
  assumes "set_inv s"
  shows "{h. \<exists>v \<in> set (elems s). P h \<and> calcHash v = Inr h} = {h \<in> keys s. P h}"
  using elems_inv(1)[OF assms] keys_elems[OF assms] by fastforce

lemma range_Add_elems:
  assumes inv: "set_inv s"
    and ty: "typ' acc = None \<or> typ' acc = typ' s"
    and c: "\<And>v h. calcHash v = Inr h \<Longrightarrow> c v \<longleftrightarrow> P h"
  shows "\<exists>acc'. range_Add c (elems s) acc = Inr acc'
           \<and> keys acc' = keys acc \<union> {h \<in> keys s. P h}
           \<and> (typ' acc' = None \<or> typ' acc' = typ' s)"
proof -
  have "\<forall>v \<in> set (elems s). c v \<longrightarrow> (\<exists>h. calcHash v = Inr h) \<and> type_of v = typ' s"
    using elems_inv[OF inv] by blast
  from range_Add_ok[OF this ty] obtain acc' where
    R: "range_Add c (elems s) acc = Inr acc'"
    and K: "keys acc' = keys acc \<union> {h. \<exists>v \<in> set (elems s). c v \<and> calcHash v = Inr h}"
    and T: "typ' acc' = None \<or> typ' acc' = typ' s"
    by blast
  have "{h. \<exists>v \<in> set (elems s). c v \<and> calcHash v = Inr h}
        = {h. \<exists>v \<in> set (elems s). P h \<and> calcHash v = Inr h}"
    using c by blast
  also have "\<dots> = {h \<in> keys s. P h}" by (rule hashes_of_elems[OF inv])
  finally show ?thesis using R K T by simp
qed

lemma Add_each_range_Add:
  "range_Add (\<lambda>v. True) vs s = Inr s' \<Longrightarrow> Add_each vs s = (Inr (), s')"
proof (induction vs arbitrary: s)
  case Nil
  then show ?case by simp
next
  case (Cons v vs)
  obtain r a where A: "Add v s = (r, a)" by (cases "Add v s")
  with Cons.prems obtain b where r: "r = Inr b" and R: "range_Add (\<lambda>v. True) vs a = Inr s'"
    by (cases r) auto
  from Cons.IH[OF R] A r show ?case by simp
qed

subsection \<open>Set algebra on sets that satisfy the invariant\<close>

lemma Difference_ok:
  assumes "set_inv A" and "set_inv B"
  shows "\<exists>D. Difference A (PUnsafe B) = Inr (PUnsafe D) \<and> set_inv D
           \<and> keys D = keys A - keys B"
proof -
  have "\<exists>acc'. range_Add (\<lambda>obj. \<not> Contains B [obj]) (elems A) newThreadUnsafeSet = Inr acc'
           \<and> keys acc' = keys newThreadUnsafeSet \<union> {h \<in> keys A. h \<notin> keys B}
           \<and> (typ' acc' = None \<or> typ' acc' = typ' A)"
    by (rule range_Add_elems[OF assms(1)]) (simp_all add: Contains_hash)
  then obtain D where R: "range_Add (\<lambda>obj. \<not> Contains B [obj]) (elems A) newThreadUnsafeSet = Inr D"
    and K: "keys D = {h \<in> keys A. h \<notin> keys B}" by auto
  from range_Add_inv[OF set_inv_new R] have "set_inv D" .
  with R K show ?thesis by (auto simp: Difference_def)
qed


lemma SymmetricDifference_ok:
  assumes "set_inv A" and "set_inv B" and "typ' A = typ' B"
  shows "\<exists>D. SymmetricDifference A (PUnsafe B) = Inr (PUnsafe D) \<and> set_inv D
           \<and> keys D = (keys A - keys B) \<union> (keys B - keys A)"
proof -
  have "\<exists>acc'. range_Add (\<lambda>obj. \<not> Contains B [obj]) (elems A) newThreadUnsafeSet = Inr acc'
           \<and> keys acc' = keys newThreadUnsafeSet \<union> {h \<in> keys A. h \<notin> keys B}
           \<and> (typ' acc' = None \<or> typ' acc' = typ' A)"
    by (rule range_Add_elems[OF assms(1)]) (simp_all add: Contains_hash)
  then obtain D1 where R1: "range_Add (\<lambda>obj. \<not> Contains B [obj]) (elems A) newThreadUnsafeSet = Inr D1"
    and K1: "keys D1 = {h \<in> keys A. h \<notin> keys B}"
    and T1: "typ' D1 = None \<or> typ' D1 = typ' B" using assms(3) by auto
  from range_Add_inv[OF set_inv_new R1] have I1: "set_inv D1" .
  have "\<exists>acc'. range_Add (\<lambda>obj. \<not> Contains A [obj]) (elems B) D1 = Inr acc'
           \<and> keys acc' = keys D1 \<union> {h \<in> keys B. h \<notin> keys A}
           \<and> (typ' acc' = None \<or> typ' acc' = typ' B)"
    by (rule range_Add_elems[OF assms(2) T1]) (simp_all add: Contains_hash)
  then obtain D where R: "range_Add (\<lambda>obj. \<not> Contains A [obj]) (elems B) D1 = Inr D"
    and K: "keys D = keys D1 \<union> {h \<in> keys B. h \<notin> keys A}" by auto
  from range_Add_inv[OF I1 R] have "set_inv D" .
  with R1 R K K1 show ?thesis by (auto simp: SymmetricDifference_def)
qed

lemma Union_ok:
  assumes "set_inv A" and "set_inv B" and "typ' A = typ' B"
  shows "\<exists>U. Union A (PUnsafe B) = Inr (PUnsafe U) \<and> set_inv U
           \<and> keys U = keys A \<union> keys B"
proof -
  have "\<exists>acc'. range_Add (\<lambda>obj. True) (elems A) newThreadUnsafeSet = Inr acc'
           \<and> keys acc' = keys newThreadUnsafeSet \<union> {h \<in> keys A. True}
           \<and> (typ' acc' = None \<or> typ' acc' = typ' A)"
    by (rule range_Add_elems[OF assms(1)]) simp_all
  then obtain U1 where R1: "range_Add (\<lambda>obj. True) (elems A) newThreadUnsafeSet = Inr U1"
    and K1: "keys U1 = keys A"
    and T1: "typ' U1 = None \<or> typ' U1 = typ' B" using assms(3) by auto
  from range_Add_inv[OF set_inv_new R1] have I1: "set_inv U1" .
  have "\<exists>acc'. range_Add (\<lambda>obj. True) (elems B) U1 = Inr acc'
           \<and> keys acc' = keys U1 \<union> {h \<in> keys B. True}
           \<and> (typ' acc' = None \<or> typ' acc' = typ' B)"
    by (rule range_Add_elems[OF assms(2) T1]) simp_all
  then obtain U where R: "range_Add (\<lambda>obj. True) (elems B) U1 = Inr U"
    and K: "keys U = keys U1 \<union> keys B" by auto
  from range_Add_inv[OF I1 R] have "set_inv U" .
  with R1 R K K1 show ?thesis by (auto simp: Union_def)
qed

lemma SymmetricDifference_exactly_one:
  assumes "set_inv A" and "set_inv B" and "typ' A = typ' B"
  shows "\<exists>S D1 D2. SymmetricDifference A (PUnsafe B) = Inr (PUnsafe S)
           \<and> Difference A (PUnsafe B) = Inr (PUnsafe D1)
           \<and> Difference B (PUnsafe A) = Inr (PUnsafe D2)
           \<and> (\<forall>x. Contains S [x] \<longleftrightarrow> Contains A [x] \<noteq> Contains B [x])
           \<and> keys S = keys D1 \<union> keys D2 \<and> keys D1 \<inter> keys D2 = {}"
proof -
  from SymmetricDifference_ok[OF assms] obtain S where
    S: "SymmetricDifference A (PUnsafe B) = Inr (PUnsafe S)"
    and kS: "keys S = (keys A - keys B) \<union> (keys B - keys A)" by blast
  from Difference_ok[OF assms(1,2)] obtain D1 where
    D1: "Difference A (PUnsafe B) = Inr (PUnsafe D1)" and k1: "keys D1 = keys A - keys B" by blast
  from Difference_ok[OF assms(2,1)] obtain D2 where
    D2: "Difference B (PUnsafe A) = Inr (PUnsafe D2)" and k2: "keys D2 = keys B - keys A" by blast
  have u: "keys S = keys D1 \<union> keys D2" unfolding kS k1 k2 ..
  have d: "keys D1 \<inter> keys D2 = {}" unfolding k1 k2 by blast
  have "SymmetricDifference A (PUnsafe B) = Inr (PUnsafe S)
           \<and> Difference A (PUnsafe B) = Inr (PUnsafe D1)
           \<and> Difference B (PUnsafe A) = Inr (PUnsafe D2)
           \<and> (\<forall>x. Contains S [x] \<longleftrightarrow> Contains A [x] \<noteq> Contains B [x])
           \<and> keys S = keys D1 \<union> keys D2 \<and> keys D1 \<inter> keys D2 = {}"
    using S D1 D2 u d Contains_SymmetricDifference[OF kS] by (intro conjI allI)
  then show ?thesis by (intro exI)
qed

lemma Equal_inverted: "Set_Size other = Inr n \<Longrightarrow> Size s \<noteq> n \<Longrightarrow> Equal s other = Inr True"
  by (simp add: Equal_def)

lemma Equal_same_size:
  assumes "set_inv A" and "Size A = Size B"
  shows "Equal A (PUnsafe B) = Inr (keys A \<subseteq> keys B)"
proof -
  have "list_all (\<lambda>obj. Contains B [obj]) (elems A) \<longleftrightarrow> keys A \<subseteq> keys B"
    using elems_inv(1)[OF assms(1)] keys_elems[OF assms(1)]
    by (fastforce simp: list_all_iff Contains_single)
  with assms(2) show ?thesis by (simp add: Equal_def)
qed

lemma Safe_SymmetricDifference_is_Difference:
  "Safe_SymmetricDifference s other = Safe_Difference s other"
  by (simp add: Safe_SymmetricDifference_def Safe_Difference_def)

subsection \<open>Every operation keeps the invariant\<close>


lemma Pop_Nil: "dat s = [] \<Longrightarrow> Pop s = ((VNil, False), s)"
  by (simp add: Pop_def)

lemma Pop_Cons:
  "dat s = (k, v) # rest \<Longrightarrow> Pop s = ((v, True), s\<lparr>dat := AList.delete k (dat s)\<rparr>)"
  by (simp add: Pop_def)











lemma wrap_PSafe:
  "wrap r = Inr (PSafe c)
    \<Longrightarrow> \<exists>u. r = Inr (PUnsafe u) \<and> c = \<lparr>rwmutex = zeroRWMutex, unsafeSet = u\<rparr>"
  by (cases r rule: wrap.cases) auto

lemma wrap_Inr: "wrap r = Inr c \<Longrightarrow> \<exists>u. r = Inr (PUnsafe u) \<and> c = PSafe \<lparr>rwmutex = zeroRWMutex, unsafeSet = u\<rparr>"
  by (cases r rule: wrap.cases) auto

lemma RUnlock_RLock: "RLock m = Some m' \<Longrightarrow> RUnlock m' = m"
  by (auto simp: RLock_def RUnlock_def split: if_splits)

lemma Unlock_Lock: "Lock m = Some m' \<Longrightarrow> Unlock m' = m"
  by (auto simp: Lock_def Unlock_def split: if_splits)

lemma RLock_free: "\<not> writer m \<Longrightarrow> \<exists>m'. RLock m = Some m'"
  by (simp add: RLock_def)

lemma RLock_held: "writer m \<Longrightarrow> RLock m = None"
  by (simp add: RLock_def)

















text \<open>
  The write lock stays held after a panicking \<open>Add\<close>, and after nothing else: every
  other call leaves it as it found it, and a new set has it free.
\<close>

lemma Safe_Add_panic_keeps_lock:
  assumes "Lock (rwmutex s) = Some m" and "fst (Add v (unsafeSet s)) = Inl err"
  shows "fst (Safe_Add v s) = Inl err \<and> writer (rwmutex (snd (Safe_Add v s)))"
  using assms
  by (cases "Add v (unsafeSet s)") (auto simp: Safe_Add_def Lock_def split: if_splits)

lemma Safe_Add_return_frees_lock:
  "Safe_Add v s = (Inr b, s') \<Longrightarrow> \<not> writer (rwmutex s')"
  by (cases "Add v (unsafeSet s)")
     (auto simp: Safe_Add_def Lock_def Unlock_def split: option.splits sum.splits if_splits)

lemma writer_kept:
  "writer (rwmutex (snd (Safe_Remove v s))) = writer (rwmutex s)"
  "writer (rwmutex (snd (Safe_Clear s))) = writer (rwmutex s)"
  "writer (rwmutex (snd (Safe_Pop s))) = writer (rwmutex s)"
  "writer (rwmutex (snd (Safe_UnmarshalJSON Decode b s))) = writer (rwmutex s)"
  "writer (rwmutex (snd (Safe_Clone s))) = writer (rwmutex s)"
  by (auto simp: Safe_Remove_def Safe_Clear_def Safe_Pop_def Safe_UnmarshalJSON_def
      Safe_Clone_def Lock_def Unlock_def RLock_def RUnlock_def
      split: option.splits sum.splits prod.splits if_splits)

lemma writer_kept_under_RLocks:
  assumes "under_RLocks s o' body = (r, s', o'')"
  shows "writer (rwmutex s') = writer (rwmutex s) \<and> writer (rwmutex o'') = writer (rwmutex o')"
  using assms
  by (auto simp: under_RLocks_def RLock_def RUnlock_def split: option.splits sum.splits if_splits)

lemma writer_new: "wrap r = Inr (PSafe c) \<Longrightarrow> \<not> writer (rwmutex c)"
  by (auto dest!: wrap_PSafe simp: zeroRWMutex_def)




subsection \<open>UnmarshalJSON\<close>

lemma UnmarshalJSON_same_values:
  assumes "set_inv S" and "Decode b = Inr (elems S)"
  shows "\<exists>S'. UnmarshalJSON Decode b newThreadUnsafeSet = (Inr None, S')
           \<and> keys S' = keys S \<and> Cardinality S' = Cardinality S"
proof -
  have "\<exists>acc'. range_Add (\<lambda>v. True) (elems S) newThreadUnsafeSet = Inr acc'
           \<and> keys acc' = keys newThreadUnsafeSet \<union> {h \<in> keys S. True}
           \<and> (typ' acc' = None \<or> typ' acc' = typ' S)"
    by (rule range_Add_elems[OF assms(1)]) simp_all
  then obtain S' where R: "range_Add (\<lambda>v. True) (elems S) newThreadUnsafeSet = Inr S'"
    and K: "keys S' = keys S" by auto
  from range_Add_inv[OF set_inv_new R] have "set_inv S'" .
  with K assms(1) have C: "Cardinality S' = Cardinality S" by (simp add: Cardinality_keys)
  from Add_each_range_Add[OF R] assms(2)
  have "UnmarshalJSON Decode b newThreadUnsafeSet = (Inr None, S')"
    by (simp add: UnmarshalJSON_def)
  with K C show ?thesis by blast
qed

lemma UnmarshalJSON_unhashable_first:
  assumes "Decode b = Inr (VOther t r # rest)"
  shows "UnmarshalJSON Decode b newThreadUnsafeSet
           = (Inl ErrNotHashable, \<lparr>dat = [], typ' = Some (TNamed t)\<rparr>)"
  using assms by (simp add: UnmarshalJSON_def Add_def calcHash_def newThreadUnsafeSet_def)

subsection \<open>The example sets\<close>

lemmas eval_defs = calcHash_def FormatInt_def FormatUint.simps digit_char_def Add_def
  newThreadUnsafeSet_def newThreadSafeSet_def Size_def Cardinality_def Safe_Size_def
  elems_def keys_def Contains.simps
  zeroRWMutex_def Lock_def Unlock_def RLock_def RUnlock_def under_RLocks_def
  guarded_def heldRWMutex_def

lemma ex_inv: "set_inv ex_13" "set_inv ex_123" "set_inv ex_234" "set_inv ex_1"
  by (simp_all add: set_inv_def ex_13_def ex_123_def ex_234_def ex_1_def calcHash_small)

section \<open>The claims\<close>

text \<open>
  Claim C1: \<open>Equal(A, B)\<close> is true if and only if A and B have the same cardinality and
  every element of A is in B. The code returns \<open>true\<close> as soon as the sizes differ
  (\<open>Equal_inverted\<close>); on sets of one size it does compare the keys
  (\<open>Equal_same_size\<close>). The sets built from 1, 2 and from 1, 2, 3 are reported equal, by
  both implementations.
\<close>

theorem Equal_differing_sizes:
  "NewThreadUnsafeSet [VInt 1, VInt 2] = Inr (PUnsafe ex_12)
   \<and> NewThreadUnsafeSet [VInt 1, VInt 2, VInt 3] = Inr (PUnsafe ex_123)
   \<and> Size ex_12 = 2 \<and> Size ex_123 = 3
   \<and> Equal ex_12 (PUnsafe ex_123) = Inr True
   \<and> NewSet [VInt 1, VInt 2] = Inr (PSafe (guarded zeroRWMutex ex_12))
   \<and> NewSet [VInt 1, VInt 2, VInt 3] = Inr (PSafe (guarded zeroRWMutex ex_123))
   \<and> Safe_Equal (guarded zeroRWMutex ex_12) (PSafe (guarded zeroRWMutex ex_123))
       = (Inr True, guarded zeroRWMutex ex_12, PSafe (guarded zeroRWMutex ex_123))"
  by (simp add: eval_defs ex_12_def ex_123_def NewThreadUnsafeSet_def NewSet_def Safe_Add_def
      Equal_def Safe_Equal_def)

text \<open>
  Claim C2: an element is in \<open>SymmetricDifference(A, B)\<close> if and only if it is in exactly
  one of A and B, for both implementations. \<open>ThreadUnsafeSet.SymmetricDifference\<close> does
  that (\<open>SymmetricDifference_exactly_one\<close>). \<open>ThreadSafeSet.SymmetricDifference\<close>
  returns the difference (\<open>Safe_SymmetricDifference_is_Difference\<close>): on the sets built
  from 1, 2, 3 and from 2, 3, 4 it returns the set of 1 alone, without the 4 that is in
  the second set only, where \<open>ThreadUnsafeSet.SymmetricDifference\<close> returns 1 and 4.
\<close>

theorem Safe_SymmetricDifference_drops_other_side:
  "NewSet [VInt 1, VInt 2, VInt 3] = Inr (PSafe (guarded zeroRWMutex ex_123))
   \<and> NewSet [VInt 2, VInt 3, VInt 4] = Inr (PSafe (guarded zeroRWMutex ex_234))
   \<and> Safe_SymmetricDifference (guarded zeroRWMutex ex_123) (PSafe (guarded zeroRWMutex ex_234))
       = (Inr (PSafe (guarded zeroRWMutex ex_1)),
          guarded zeroRWMutex ex_123, PSafe (guarded zeroRWMutex ex_234))
   \<and> Safe_Contains (guarded zeroRWMutex ex_234) [VInt 4] = Inr True
   \<and> Safe_Contains (guarded zeroRWMutex ex_123) [VInt 4] = Inr False
   \<and> Safe_Contains (guarded zeroRWMutex ex_1) [VInt 4] = Inr False
   \<and> SymmetricDifference ex_123 (PUnsafe ex_234)
       = Inr (PUnsafe \<lparr>dat = [(''1'', VInt 1), (''4'', VInt 4)], typ' = Some TInt\<rparr>)"
  by (simp add: eval_defs ex_1_def ex_123_def ex_234_def NewSet_def Safe_Add_def
      Safe_SymmetricDifference_def Difference_def SymmetricDifference_def Safe_Contains_def)

text \<open>
  Claim C3: the hash of every native value succeeds, is the decimal text for the
  integers, and the fallback branch of \<open>calcHash\<close> cannot be reached by a value that
  \<open>isHashableObj\<close> accepts. That holds for every native kind but \<open>uint8\<close>
  (\<open>calcHash_native\<close>, \<open>calcHash_integers\<close>, and \<open>ParseUint_FormatUint\<close> for the decimal
  text): \<open>isHashableObj\<close> accepts a \<open>uint8\<close>,
  \<open>calcHash\<close> has no case for it and returns the fallback error, and \<open>Add\<close> and
  \<open>Remove\<close> of the \<open>uint8\<close> 5 panic with it.
\<close>

theorem calcHash_uint8_fallback:
  "isHashableObj (VUint8 5)
   \<and> calcHash (VUint8 5) = Inl (ErrNotNativeHashable TUint8)
   \<and> fst (Add (VUint8 5) newThreadUnsafeSet) = Inl (ErrNotNativeHashable TUint8)
   \<and> fst (Remove (VUint8 5) newThreadUnsafeSet) = Inl (ErrNotNativeHashable TUint8)"
  by (simp add: calcHash_def Add_def Remove_def newThreadUnsafeSet_def)

text \<open>
  Claim C4: unmarshaling the marshaled form of a set of primitive elements into a new
  set succeeds and gives the same cardinality and the same keys. Unmarshaling values
  equal to the stored ones does (\<open>UnmarshalJSON_same_values\<close>), which is what decoding
  gives for strings. A number is decoded, under \<open>UseNumber\<close>, to a \<open>json.Number\<close>, which
  is no \<open>Hashable\<close> and no native kind, so \<open>Add\<close> panics on the first one
  (\<open>UnmarshalJSON_unhashable_first\<close>). With \<open>json.Marshal\<close> writing the \<open>int\<close> 1 as
  \<open>1\<close> and the decoder reading \<open>[1]\<close> as one \<open>json.Number\<close>, the set built from 1
  marshals to \<open>[1]\<close> and unmarshaling \<open>[1]\<close> panics.
\<close>

theorem roundtrip_of_int_panics:
  assumes "Marshal (VInt 1) = Inr ''1''"
    and "Decode ''[1]'' = Inr [VOther ''json.Number'' ''1'']"
  shows "NewThreadUnsafeSet [VInt 1] = Inr (PUnsafe \<lparr>dat = [(''1'', VInt 1)], typ' = Some TInt\<rparr>)
         \<and> MarshalJSON Marshal \<lparr>dat = [(''1'', VInt 1)], typ' = Some TInt\<rparr> = Inr ''[1]''
         \<and> UnmarshalJSON Decode ''[1]'' newThreadUnsafeSet
             = (Inl ErrNotHashable, \<lparr>dat = [], typ' = Some (TNamed ''json.Number'')\<rparr>)"
  using assms
    UnmarshalJSON_unhashable_first[of Decode "''[1]''" "''json.Number''" "''1''" "[]"]
  by (simp add: MarshalJSON_def elems_def NewThreadUnsafeSet_def newThreadUnsafeSet_def Add_def
      calcHash_small)

theorem roundtrip_of_int_panics_witness:
  "MarshalJSON (\<lambda>v. Inr ''1'') \<lparr>dat = [(''1'', VInt 1)], typ' = Some TInt\<rparr> = Inr ''[1]''
   \<and> fst (UnmarshalJSON (\<lambda>b. Inr [VOther ''json.Number'' ''1'']) ''[1]'' newThreadUnsafeSet)
       = Inl ErrNotHashable"
  using roundtrip_of_int_panics[of "\<lambda>v. Inr ''1''" "\<lambda>b. Inr [VOther ''json.Number'' ''1'']"]
  by simp

text \<open>
  Claim C5: \<open>Contains\<close> returns true if and only if the hash key of every argument is a
  key of the mapping; an argument whose key cannot be computed makes the call return
  false. \<open>Contains\<close> returns a boolean and nothing else: it cannot panic, it returns no
  error, and it reads the set without writing it.
\<close>

theorem Contains_all_keys_present:
  "(Contains s vs \<longleftrightarrow> (\<forall>v \<in> set vs. \<exists>h. calcHash v = Inr h \<and> h \<in> keys s))
   \<and> (\<forall>v \<in> set vs. (\<exists>e. calcHash v = Inl e) \<longrightarrow> \<not> Contains s vs)"
  by (fastforce simp: Contains_iff)

theorem Contains_all_keys_present_witness:
  "Contains ex_13 [VInt 1, VInt 3]
   \<and> \<not> Contains ex_13 [VInt 1, VInt 2]
   \<and> calcHash (VOther ''bool'' ''true'') = Inl ErrNotHashable
   \<and> \<not> Contains ex_13 [VInt 1, VOther ''bool'' ''true'']"
  using Contains_all_keys_present[of ex_13 "[VInt 1, VInt 3]"]
    Contains_all_keys_present[of ex_13 "[VInt 1, VInt 2]"]
    Contains_all_keys_present[of ex_13 "[VInt 1, VOther ''bool'' ''true'']"]
  by (simp add: calcHash_small keys_def ex_13_def) (simp add: calcHash_def)




text \<open>
  Claim C7, amended: for every set S and every element x whose hash key can be computed
  and whose type is the type recorded in S, or S has no type recorded, \<open>Add(x)\<close> returns
  true; if the key of x is already present the cardinality is unchanged (the entry is
  overwritten), otherwise it grows by one. The claim as stated also allows any S that
  is empty: a set emptied by \<open>Remove\<close> keeps its recorded type, and \<open>Add\<close> of a value of
  another type panics, as the closed instance after the witness shows.
\<close>

theorem Add_returns_true:
  assumes "calcHash x = Inr h" and "typ' S = None \<or> typ' S = type_of x"
  shows "fst (Add x S) = Inr True
         \<and> (h \<in> keys S \<longrightarrow> Cardinality (snd (Add x S)) = Cardinality S)
         \<and> (h \<notin> keys S \<longrightarrow> Cardinality (snd (Add x S)) = Cardinality S + 1)
         \<and> map_of (dat (snd (Add x S))) h = Some x"
  unfolding Add_ok[OF assms]
  by (simp add: Cardinality_def length_update keys_def update_conv')

theorem Add_returns_true_witness:
  "calcHash (VInt 2) = Inr ''2'' \<and> typ' ex_123 = type_of (VInt 2) \<and> ''2'' \<in> keys ex_123
   \<and> fst (Add (VInt 2) ex_123) = Inr True
   \<and> Cardinality (snd (Add (VInt 2) ex_123)) = Cardinality ex_123"
proof -
  have h: "calcHash (VInt 2) = Inr ''2''" by (rule calcHash_small)
  have t: "typ' ex_123 = type_of (VInt 2)" by (simp add: ex_123_def)
  then have t': "typ' ex_123 = None \<or> typ' ex_123 = type_of (VInt 2)" by (rule disjI2)
  have k: "''2'' \<in> keys ex_123" by (simp add: keys_def ex_123_def)
  from Add_returns_true[OF h t'] k
  have "fst (Add (VInt 2) ex_123) = Inr True"
    "Cardinality (snd (Add (VInt 2) ex_123)) = Cardinality ex_123"
    by blast+
  with h t k show ?thesis by (intro conjI)
qed

theorem Add_on_emptied_set_panics:
  "Cardinality (snd (Remove (VInt 1) (snd (Add (VInt 1) newThreadUnsafeSet)))) = 0
   \<and> calcHash (VString ''a'') = Inr ''a''
   \<and> fst (Add (VString ''a'') (snd (Remove (VInt 1) (snd (Add (VInt 1) newThreadUnsafeSet)))))
       = Inl (ErrTypeConflict TInt TString)"
  by (simp add: calcHash_small Add_def Remove_def newThreadUnsafeSet_def Cardinality_def)
     (simp add: calcHash_def)

text \<open>
  Claim C8: on a non-empty set \<open>Pop\<close> returns an element of the set together with true;
  afterwards the key of that element is absent and the cardinality is one less. On the
  empty set it returns \<open>(nil, false)\<close> and leaves the set as it is.
\<close>

theorem Pop_removes_one:
  assumes "set_inv S"
  shows "(dat S = [] \<longrightarrow> Pop S = ((VNil, False), S))
         \<and> (dat S \<noteq> [] \<longrightarrow>
              (\<exists>k v S'. Pop S = ((v, True), S') \<and> (k, v) \<in> set (dat S) \<and> calcHash v = Inr k
                 \<and> keys S' = keys S - {k} \<and> \<not> Contains S' [v]
                 \<and> Cardinality S' + 1 = Cardinality S \<and> typ' S' = typ' S))"
proof (cases "dat S")
  case Nil
  then show ?thesis by (simp add: Pop_Nil)
next
  case (Cons e rest)
  obtain k v where e: "e = (k, v)" by (cases e)
  let ?S' = "S\<lparr>dat := AList.delete k (dat S)\<rparr>"
  from Cons e have P: "Pop S = ((v, True), ?S')" by (simp add: Pop_Cons)
  from Cons e have mem: "(k, v) \<in> set (dat S)" by simp
  with assms have h: "calcHash v = Inr k" by (auto simp: set_inv_def)
  from assms have dist: "distinct (map fst (dat S))" by (simp add: set_inv_def)
  from mem have kin: "k \<in> fst ` set (dat S)" by (rule rev_image_eqI) simp
  have ks: "keys ?S' = keys S - {k}"
    by (simp add: keys_def dom_delete)
  then have nc: "\<not> Contains ?S' [v]" using h by (simp add: Contains_hash)
  have card: "Cardinality ?S' + 1 = Cardinality S"
    using length_delete_distinct[OF dist kin] by (simp add: Cardinality_def)
  have "Pop S = ((v, True), ?S') \<and> (k, v) \<in> set (dat S) \<and> calcHash v = Inr k
                 \<and> keys ?S' = keys S - {k} \<and> \<not> Contains ?S' [v]
                 \<and> Cardinality ?S' + 1 = Cardinality S \<and> typ' ?S' = typ' S"
    using P mem h ks nc card by simp
  then have "\<exists>k v S'. Pop S = ((v, True), S') \<and> (k, v) \<in> set (dat S) \<and> calcHash v = Inr k
                 \<and> keys S' = keys S - {k} \<and> \<not> Contains S' [v]
                 \<and> Cardinality S' + 1 = Cardinality S \<and> typ' S' = typ' S"
    by (intro exI)
  with Cons show ?thesis by simp
qed

theorem Pop_removes_one_witness:
  "set_inv ex_13 \<and> set_inv newThreadUnsafeSet
   \<and> Pop newThreadUnsafeSet = ((VNil, False), newThreadUnsafeSet)
   \<and> (\<exists>k v S'. Pop ex_13 = ((v, True), S') \<and> (k, v) \<in> set (dat ex_13)
         \<and> \<not> Contains S' [v] \<and> Cardinality S' + 1 = Cardinality ex_13)"
proof -
  have n: "dat newThreadUnsafeSet = []" by (simp add: newThreadUnsafeSet_def)
  have c: "dat ex_13 \<noteq> []" by (simp add: ex_13_def)
  from Pop_removes_one[OF set_inv_new] n
  have a: "Pop newThreadUnsafeSet = ((VNil, False), newThreadUnsafeSet)" by blast
  from Pop_removes_one[OF ex_inv(1)] c
  have b: "\<exists>k v S'. Pop ex_13 = ((v, True), S') \<and> (k, v) \<in> set (dat ex_13)
         \<and> \<not> Contains S' [v] \<and> Cardinality S' + 1 = Cardinality ex_13"
    by blast
  from ex_inv(1) set_inv_new a b show ?thesis by (intro conjI)
qed







end
